theory Spec2Isabelle
  imports Complex_Main
begin

section \<open>Outcomes of a call\<close>

text \<open>
  A Go call either returns, panics (a run-time error such as an index out of range or a
  method call on a nil interface value), or never returns because it waits for a
  \<^verbatim>\<open>sync.Mutex\<close> that the calling goroutine itself already holds.
\<close>

datatype 'a outcome = Returns 'a | Panics | Blocks

fun andThen :: "'a outcome \<Rightarrow> ('a \<Rightarrow> 'b outcome) \<Rightarrow> 'b outcome" where
  "andThen (Returns x) f = f x"
| "andThen Panics f = Panics"
| "andThen Blocks f = Blocks"

section \<open>Errors\<close>

text \<open>
  The four sentinel errors, an error made by a caller (\<open>ErrOther\<close>), and the wrappers of
  \<^verbatim>\<open>errors.Wrap\<close> and \<^verbatim>\<open>errors.Wrapf\<close> (format string and its integer argument).
\<close>

datatype error =
    ErrEmptyQueue
  | ErrIndexOutOfBounds
  | ErrInvalidQueueType
  | ErrInvalidQueueLimit
  | ErrOther string
  | Wrap error string
  | Wrapf error string int

section \<open>Elements\<close>

text \<open>
  \<^verbatim>\<open>float64\<close> priorities are idealised as reals (no NaN, no infinities, no rounding).
  An \<^verbatim>\<open>Element[T]\<close> interface value is \<open>None\<close> when it is nil; calling a method on
  nil panics. Element objects are modelled by value.
\<close>

datatype 'a Element = PriorityElement real 'a | BaseElement 'a

fun Priority :: "'a Element option \<Rightarrow> real outcome" where
  "Priority None = Panics"
| "Priority (Some (PriorityElement p c)) = Returns p"
| "Priority (Some (BaseElement c)) = Returns 0"

fun Content :: "'a Element option \<Rightarrow> 'a outcome" where
  "Content None = Panics"
| "Content (Some (PriorityElement p c)) = Returns c"
| "Content (Some (BaseElement c)) = Returns c"

fun SetPriority :: "'a Element option \<Rightarrow> real \<Rightarrow> 'a Element option outcome" where
  "SetPriority None p' = Panics"
| "SetPriority (Some (PriorityElement p c)) p' = Returns (Some (PriorityElement p' c))"
| "SetPriority (Some (BaseElement c)) p' = Returns (Some (BaseElement c))"

definition NewPriorityElement :: "'a \<Rightarrow> real \<Rightarrow> 'a Element option" where
  "NewPriorityElement c priority = Some (PriorityElement priority c)"

definition NewBaseElement :: "'a \<Rightarrow> 'a Element option" where
  "NewBaseElement c = Some (BaseElement c)"

section \<open>Go slices\<close>

text \<open>
  A slice is a window on a backing array. \<open>elems\<close> are the cells inside the window
  (\<^verbatim>\<open>len\<close> of them), \<open>spare\<close> the cells between the end of the window and the end of
  the array (so \<^verbatim>\<open>cap\<close> is the length of both), \<open>before\<close> the cells of the array in front
  of the window.
\<close>

datatype 'a slice = Slice (before: "'a list") (elems: "'a list") (spare: "'a list")

definition len :: "'a slice \<Rightarrow> int" where
  "len s = int (length (elems s))"

definition cap :: "'a slice \<Rightarrow> int" where
  "cap s = int (length (elems s) + length (spare s))"

text \<open>\<^verbatim>\<open>make([]E, n, c)\<close>: \<open>n\<close> nil cells in the window, \<open>c\<close> cells in all.\<close>

definition makeSlice :: "int \<Rightarrow> int \<Rightarrow> 'a option slice outcome" where
  "makeSlice n c =
     (if 0 \<le> n \<and> n \<le> c
      then Returns (Slice [] (replicate (nat n) None) (replicate (nat (c - n)) None))
      else Panics)"

text \<open>\<^verbatim>\<open>s[i]\<close> and \<^verbatim>\<open>s[i] = v\<close>.\<close>

definition elemAt :: "'a slice \<Rightarrow> int \<Rightarrow> 'a outcome" where
  "elemAt s i = (if 0 \<le> i \<and> i < len s then Returns (elems s ! nat i) else Panics)"

definition setIndex :: "'a slice \<Rightarrow> int \<Rightarrow> 'a \<Rightarrow> 'a slice outcome" where
  "setIndex s i v =
     (if 0 \<le> i \<and> i < len s
      then Returns (Slice (before s) ((elems s)[nat i := v]) (spare s))
      else Panics)"

text \<open>\<^verbatim>\<open>s[i:]\<close> (bounded by the length) and \<^verbatim>\<open>s[:j]\<close> (bounded by the capacity).\<close>

definition sliceFrom :: "'a slice \<Rightarrow> int \<Rightarrow> 'a slice outcome" where
  "sliceFrom s i =
     (if 0 \<le> i \<and> i \<le> len s
      then Returns (Slice (before s @ take (nat i) (elems s)) (drop (nat i) (elems s)) (spare s))
      else Panics)"

definition sliceTo :: "'a slice \<Rightarrow> int \<Rightarrow> 'a slice outcome" where
  "sliceTo s j =
     (if 0 \<le> j \<and> j \<le> cap s
      then Returns (Slice (before s) (take (nat j) (elems s @ spare s))
                      (drop (nat j) (elems s @ spare s)))
      else Panics)"

text \<open>
  \<^verbatim>\<open>append(s, xs...)\<close> writes into the spare cells when they suffice. Otherwise it
  allocates a new array, whose capacity is the runtime's choice: the parameter \<open>g\<close>, applied
  to the old capacity and the needed length, or the needed length when that is larger.
\<close>

definition appendSlice ::
  "(nat \<Rightarrow> nat \<Rightarrow> nat) \<Rightarrow> 'a option slice \<Rightarrow> 'a option list \<Rightarrow> 'a option slice" where
  "appendSlice g s xs =
     (if length xs \<le> length (spare s)
      then Slice (before s) (elems s @ xs) (drop (length xs) (spare s))
      else Slice [] (elems s @ xs)
             (replicate (g (length (elems s) + length (spare s)) (length (elems s) + length xs)
                          - (length (elems s) + length xs)) None))"

text \<open>\<^verbatim>\<open>copy(s[i:], s[i+1:])\<close>: the cells after \<open>i\<close> move down by one, the last one stays.\<close>

definition copyDown :: "'a slice \<Rightarrow> int \<Rightarrow> 'a slice outcome" where
  "copyDown s i =
     (if 0 \<le> i \<and> i + 1 \<le> len s
      then Returns (Slice (before s)
                      (take (nat i) (elems s) @ drop (nat i + 1) (elems s) @ [last (elems s)])
                      (spare s))
      else Panics)"

text \<open>\<^verbatim>\<open>copy(dst, src)\<close> for two slices on different arrays.\<close>

definition copyInto :: "'a slice \<Rightarrow> 'a slice \<Rightarrow> 'a slice" where
  "copyInto dst src =
     Slice (before dst)
       (take (min (length (elems dst)) (length (elems src))) (elems src)
          @ drop (min (length (elems dst)) (length (elems src))) (elems dst))
       (spare dst)"

section \<open>The queue (queue/queue.go)\<close>

definition Fifo :: int where "Fifo = 0"
definition Lifo :: int where "Lifo = 1"
definition PriorityHigh :: int where "PriorityHigh = 2"
definition PriorityLow :: int where "PriorityLow = 3"
definition FifoLimited :: int where "FifoLimited = 4"
definition numQueuetypes :: int where "numQueuetypes = 5"

record 'a Queue =
  order :: int
  lock :: bool
  queueSlice :: "'a Element option slice"
  numElements :: int
  maxnumElements :: int

definition NewQueue :: "int \<Rightarrow> error + 'a Queue" where
  "NewQueue tp =
     (if tp < 0 \<or> tp > numQueuetypes then Inl ErrInvalidQueueType
      else Inr \<lparr>order = tp, lock = False, queueSlice = Slice [] [] [],
                numElements = 0, maxnumElements = 0\<rparr>)"

definition Lock :: "'a Queue \<Rightarrow> 'a Queue outcome" where
  "Lock q = (if lock q then Blocks else Returns (q\<lparr>lock := True\<rparr>))"

definition Unlock :: "'a Queue \<Rightarrow> 'a Queue" where
  "Unlock q = q\<lparr>lock := False\<rparr>"

definition Len :: "'a Queue \<Rightarrow> int" where
  "Len q = numElements q"

definition SetLimit :: "'a Queue \<Rightarrow> int \<Rightarrow> error option \<times> 'a Queue" where
  "SetLimit q limit =
     (if limit < 0 then (Some ErrInvalidQueueLimit, q)
      else (None, q\<lparr>maxnumElements := limit\<rparr>))"

subsection \<open>Shrinking (queue/shrinking.go)\<close>

definition shrinkFactor :: "'a Queue \<Rightarrow> real" where
  "shrinkFactor q =
     (if numElements q < 1000 then 0.75
      else if numElements q < 10000 then 0.9
      else if numElements q < 100000 then 0.99
      else if numElements q < 1000000 then 0.999
      else 0.9999)"

definition afterShrinkFactor :: "'a Queue \<Rightarrow> real" where
  "afterShrinkFactor q =
     (if numElements q < 1000 then 0.8
      else if numElements q < 10000 then 0.95
      else if numElements q < 100000 then 0.995
      else if numElements q < 1000000 then 0.9995
      else 0.99995)"

subsection \<open>Removal (queue/removeFunctions.go)\<close>

definition handleShrink :: "'a Queue \<Rightarrow> 'a Queue outcome" where
  "handleShrink q =
     (let lenQ = len (queueSlice q) in
      if real_of_int lenQ < shrinkFactor q * real_of_int (cap (queueSlice q)) then
        (let newCap = \<lceil>afterShrinkFactor q * real_of_int (cap (queueSlice q))\<rceil> in
         andThen (makeSlice lenQ newCap) (\<lambda>temp.
         andThen (sliceTo (queueSlice q) lenQ) (\<lambda>src.
         Returns (q\<lparr>queueSlice := copyInto temp src\<rparr>))))
      else Returns q)"

text \<open>
  The branch \<open>i = lenQ\<close> of the source is kept although the bounds check above it
  excludes it.
\<close>

definition deleteWithoutMemoryManagement ::
  "'a Queue \<Rightarrow> int \<Rightarrow> ((error + 'a Element option) \<times> 'a Queue) outcome" where
  "deleteWithoutMemoryManagement q i =
     (let lenQ = numElements q in
      if lenQ = 0 then Returns (Inl ErrEmptyQueue, q)
      else if i < 0 \<or> i \<ge> numElements q then Returns (Inl ErrIndexOutOfBounds, q)
      else
        andThen (elemAt (queueSlice q) i) (\<lambda>elem.
        andThen
          (if i = lenQ then sliceTo (queueSlice q) i
           else if i = 0 then
             andThen (setIndex (queueSlice q) 0 None) (\<lambda>s. sliceFrom s 1)
           else
             andThen (copyDown (queueSlice q) i) (\<lambda>s.
             andThen (setIndex s (lenQ - 1) None) (\<lambda>s.
             sliceTo s (lenQ - 1))))
          (\<lambda>s. Returns (Inr elem, q\<lparr>queueSlice := s, numElements := numElements q - 1\<rparr>))))"

text \<open>\<^verbatim>\<open>errors.Wrap\<close> of a nil error is nil.\<close>

definition remove ::
  "'a Queue \<Rightarrow> int \<Rightarrow> ((error + 'a Element option) \<times> 'a Queue) outcome" where
  "remove q i =
     andThen (deleteWithoutMemoryManagement q i) (\<lambda>(r, q).
     andThen (handleShrink q) (\<lambda>q.
     Returns (case r of Inl err \<Rightarrow> Inl (Wrap err ''removing element'') | Inr elem \<Rightarrow> Inr elem, q)))"

subsection \<open>Insertion\<close>

definition insertFifo ::
  "(nat \<Rightarrow> nat \<Rightarrow> nat) \<Rightarrow> 'a Queue \<Rightarrow> 'a Element option \<Rightarrow> 'a Queue" where
  "insertFifo g q elem =
     q\<lparr>queueSlice := appendSlice g (Slice [] [elem] []) (elems (queueSlice q))\<rparr>"

definition insertLifo ::
  "(nat \<Rightarrow> nat \<Rightarrow> nat) \<Rightarrow> 'a Queue \<Rightarrow> 'a Element option \<Rightarrow> 'a Queue" where
  "insertLifo g q elem = q\<lparr>queueSlice := appendSlice g (queueSlice q) [elem]\<rparr>"

text \<open>
  \<^verbatim>\<open>append(q.queueSlice[:(i-1)], append([]Element[T]{elem}, q.queueSlice[(i-1):]...)...)\<close>,
  the splice of both default loops. Both slice expressions panic when \<open>i = 0\<close>.
\<close>

definition spliceBefore ::
  "(nat \<Rightarrow> nat \<Rightarrow> nat) \<Rightarrow> 'a Queue \<Rightarrow> 'a Element option \<Rightarrow> int \<Rightarrow> 'a Queue outcome" where
  "spliceBefore g q elem i =
     andThen (sliceTo (queueSlice q) (i - 1)) (\<lambda>front.
     andThen (sliceFrom (queueSlice q) (i - 1)) (\<lambda>back.
     Returns (q\<lparr>queueSlice :=
       appendSlice g front (elems (appendSlice g (Slice [] [elem] []) (elems back)))\<rparr>)))"

text \<open>
  \<open>backtrackLoop g q elem k\<close> is the loop of \<^verbatim>\<open>backtrackInsertionPoint\<close> at \<open>i = k - 1\<close>;
  it starts at \<open>i = numElements - 1\<close> and ends when \<open>i = -1\<close>.
\<close>

fun backtrackLoop ::
  "(nat \<Rightarrow> nat \<Rightarrow> nat) \<Rightarrow> 'a Queue \<Rightarrow> 'a Element option \<Rightarrow> nat \<Rightarrow> 'a Queue outcome" where
  "backtrackLoop g q elem 0 =
     Returns (q\<lparr>queueSlice := appendSlice g (Slice [] [elem] []) (elems (queueSlice q))\<rparr>)"
| "backtrackLoop g q elem (Suc i) =
     andThen (elemAt (queueSlice q) (int i)) (\<lambda>e.
     andThen (Priority e) (\<lambda>p.
     andThen (Priority elem) (\<lambda>pe.
     if p = pe then backtrackLoop g q elem i
     else
       andThen (sliceFrom (queueSlice q) (int i)) (\<lambda>back.
       andThen (sliceTo (queueSlice q) (int i)) (\<lambda>front.
       Returns (q\<lparr>queueSlice :=
         appendSlice g back (elems (appendSlice g (Slice [] [elem] []) (elems front)))\<rparr>))))))"

definition backtrackInsertionPoint ::
  "(nat \<Rightarrow> nat \<Rightarrow> nat) \<Rightarrow> 'a Queue \<Rightarrow> 'a Element option \<Rightarrow> 'a Queue outcome" where
  "backtrackInsertionPoint g q elem = backtrackLoop g q elem (nat (numElements q))"

text \<open>
  The default loops: \<open>es\<close> are the cells from index \<open>i\<close> on. The loop leaves the queue as
  it is when no element stops it.
\<close>

fun rangeHigh ::
  "(nat \<Rightarrow> nat \<Rightarrow> nat) \<Rightarrow> 'a Queue \<Rightarrow> 'a Element option \<Rightarrow> int \<Rightarrow> 'a Element option list
     \<Rightarrow> 'a Queue outcome" where
  "rangeHigh g q elem i [] = Returns q"
| "rangeHigh g q elem i (e # es) =
     andThen (Priority e) (\<lambda>p.
     andThen (Priority elem) (\<lambda>pe.
     if p < pe then rangeHigh g q elem (i + 1) es
     else spliceBefore g q elem i))"

fun rangeLow ::
  "(nat \<Rightarrow> nat \<Rightarrow> nat) \<Rightarrow> 'a Queue \<Rightarrow> 'a Element option \<Rightarrow> int \<Rightarrow> 'a Element option list
     \<Rightarrow> 'a Queue outcome" where
  "rangeLow g q elem i [] = Returns q"
| "rangeLow g q elem i (e # es) =
     andThen (Priority e) (\<lambda>p.
     andThen (Priority elem) (\<lambda>pe.
     if p > pe then rangeLow g q elem (i + 1) es
     else spliceBefore g q elem i))"

definition insertPriorityHigh ::
  "(nat \<Rightarrow> nat \<Rightarrow> nat) \<Rightarrow> 'a Queue \<Rightarrow> 'a Element option \<Rightarrow> 'a Queue outcome" where
  "insertPriorityHigh g q elem =
     andThen
       (if numElements q = 0 then Returns True
        else andThen (elemAt (queueSlice q) (numElements q - 1)) (\<lambda>t.
             andThen (Priority t) (\<lambda>pt.
             andThen (Priority elem) (\<lambda>pe. Returns (pt < pe)))))
       (\<lambda>atTail.
        if atTail then Returns (q\<lparr>queueSlice := appendSlice g (queueSlice q) [elem]\<rparr>)
        else
          andThen (elemAt (queueSlice q) (numElements q - 1)) (\<lambda>t.
          andThen (Priority t) (\<lambda>pt.
          andThen (Priority elem) (\<lambda>pe.
          andThen (if pt = pe then backtrackInsertionPoint g q elem else Returns q) (\<lambda>q.
          rangeHigh g q elem 0 (elems (queueSlice q)))))))"

definition insertPriorityLow ::
  "(nat \<Rightarrow> nat \<Rightarrow> nat) \<Rightarrow> 'a Queue \<Rightarrow> 'a Element option \<Rightarrow> 'a Queue outcome" where
  "insertPriorityLow g q elem =
     andThen
       (if numElements q = 0 then Returns True
        else andThen (elemAt (queueSlice q) (numElements q - 1)) (\<lambda>t.
             andThen (Priority t) (\<lambda>pt.
             andThen (Priority elem) (\<lambda>pe. Returns (pt > pe)))))
       (\<lambda>atTail.
        if atTail then Returns (q\<lparr>queueSlice := appendSlice g (queueSlice q) [elem]\<rparr>)
        else
          andThen (elemAt (queueSlice q) (numElements q - 1)) (\<lambda>t.
          andThen (Priority t) (\<lambda>pt.
          andThen (Priority elem) (\<lambda>pe.
          andThen (if pt = pe then backtrackInsertionPoint g q elem else Returns q) (\<lambda>q.
          rangeLow g q elem 0 (elems (queueSlice q)))))))"

definition insertFifoLimited ::
  "(nat \<Rightarrow> nat \<Rightarrow> nat) \<Rightarrow> 'a Queue \<Rightarrow> 'a Element option \<Rightarrow> (error option \<times> 'a Queue) outcome" where
  "insertFifoLimited g q elem =
     (if numElements q = maxnumElements q \<and> maxnumElements q \<noteq> 0 then
        andThen (remove q (numElements q - 1)) (\<lambda>(r, q).
        case r of
          Inl err \<Rightarrow> Returns (Some (Wrap err ''popping element because of overflow''), q)
        | Inr _ \<Rightarrow> Returns (None, insertFifo g q elem))
      else Returns (None, insertFifo g q elem))"

subsection \<open>Public operations (queue/queue.go)\<close>

text \<open>
  \<open>Append\<close>, \<open>Insert\<close>, \<open>Remove\<close> and \<open>RemoveElement\<close> take the mutex first and
  release it when they return (\<^verbatim>\<open>defer q.lock.Unlock()\<close>). Only the \<open>FifoLimited\<close> case
  of \<open>Insert\<close> returns from inside the switch, before \<^verbatim>\<open>q.numElements++\<close>.
\<close>

definition Append :: "(nat \<Rightarrow> nat \<Rightarrow> nat) \<Rightarrow> 'a Queue \<Rightarrow> 'a Element option \<Rightarrow> 'a Queue outcome" where
  "Append g q elem =
     andThen (Lock q) (\<lambda>q.
     Returns (Unlock (q\<lparr>queueSlice := appendSlice g (queueSlice q) [elem],
                        numElements := numElements q + 1\<rparr>)))"

definition Insert ::
  "(nat \<Rightarrow> nat \<Rightarrow> nat) \<Rightarrow> 'a Queue \<Rightarrow> 'a Element option \<Rightarrow> (error option \<times> 'a Queue) outcome" where
  "Insert g q elem =
     andThen (Lock q) (\<lambda>q.
     if order q = FifoLimited then
       andThen (insertFifoLimited g q elem) (\<lambda>(err, q). Returns (err, Unlock q))
     else
       andThen
         (if order q = Fifo then Returns (Inr (insertFifo g q elem))
          else if order q = Lifo then Returns (Inr (insertLifo g q elem))
          else if order q = PriorityHigh then
            andThen (insertPriorityHigh g q elem) (\<lambda>q. Returns (Inr q))
          else if order q = PriorityLow then
            andThen (insertPriorityLow g q elem) (\<lambda>q. Returns (Inr q))
          else Returns (Inl ErrInvalidQueueType))
         (\<lambda>r. case r of
            Inl err \<Rightarrow> Returns (Some err, Unlock q)
          | Inr q \<Rightarrow> Returns (None, Unlock (q\<lparr>numElements := numElements q + 1\<rparr>))))"

definition Remove :: "'a Queue \<Rightarrow> ((error + ('a \<times> real)) \<times> 'a Queue) outcome" where
  "Remove q =
     andThen (Lock q) (\<lambda>q.
     andThen (remove q (numElements q - 1)) (\<lambda>(r, q).
     case r of
       Inl err \<Rightarrow> Returns (Inl err, Unlock q)
     | Inr elem \<Rightarrow>
         andThen (Content elem) (\<lambda>c.
         andThen (Priority elem) (\<lambda>p.
         Returns (Inr (c, p), Unlock q)))))"

definition RemoveElement :: "'a Queue \<Rightarrow> ((error + 'a Element option) \<times> 'a Queue) outcome" where
  "RemoveElement q =
     andThen (Lock q) (\<lambda>q.
     andThen (remove q (numElements q - 1)) (\<lambda>(r, q). Returns (r, Unlock q)))"

subsection \<open>Reading (queue/peekFunctions.go)\<close>

text \<open>
  Go's \<^verbatim>\<open>int\<close> has 64 bits. The only subtraction with an operand the caller chooses
  freely is the one of \<open>PeekElemAtIndex\<close>, where the wrap-around is written out.
\<close>

definition wrap64 :: "int \<Rightarrow> int" where
  "wrap64 x = (x + 2 ^ 63) mod 2 ^ 64 - 2 ^ 63"

definition PeekElem :: "'a Queue \<Rightarrow> (error + (real \<times> 'a)) outcome" where
  "PeekElem q =
     andThen (Lock q) (\<lambda>q.
     if numElements q = 0 then Returns (Inl ErrEmptyQueue)
     else
       andThen (elemAt (queueSlice q) (numElements q - 1)) (\<lambda>elem.
       andThen (Priority elem) (\<lambda>p.
       andThen (Content elem) (\<lambda>c.
       Returns (Inr (p, c))))))"

definition PeekElemAtIndex :: "'a Queue \<Rightarrow> int \<Rightarrow> (error + (real \<times> 'a)) outcome" where
  "PeekElemAtIndex q idx =
     andThen (Lock q) (\<lambda>q.
     if numElements q = 0 then Returns (Inl ErrEmptyQueue)
     else
       (let realIndex = wrap64 ((numElements q - 1) - idx) in
        if realIndex < 0 then Returns (Inl ErrIndexOutOfBounds)
        else
          andThen (elemAt (queueSlice q) realIndex) (\<lambda>elem.
          andThen (Priority elem) (\<lambda>p.
          andThen (Content elem) (\<lambda>c.
          Returns (Inr (p, c)))))))"

subsection \<open>Contents and clone (queue/queue.go)\<close>

text \<open>
  \<open>GetAllElements\<close> starts from \<^verbatim>\<open>make([]T, q.numElements)\<close>, that is from
  \<open>numElements\<close> zero values of \<open>T\<close> (the parameter \<open>z\<close>), and appends every content.
\<close>

fun appendContents :: "'a list \<Rightarrow> 'a Element option list \<Rightarrow> 'a list outcome" where
  "appendContents ret [] = Returns ret"
| "appendContents ret (elem # es) =
     andThen (Content elem) (\<lambda>c. appendContents (ret @ [c]) es)"

definition GetAllElements :: "'a \<Rightarrow> 'a Queue \<Rightarrow> 'a list outcome" where
  "GetAllElements z q =
     (if numElements q < 0 then Panics
      else appendContents (replicate (nat (numElements q)) z) (elems (queueSlice q)))"

definition Clone :: "'a Queue \<Rightarrow> ('a Queue \<times> 'a Queue) outcome" where
  "Clone q =
     andThen (Lock q) (\<lambda>q.
     andThen (makeSlice (numElements q) (numElements q)) (\<lambda>s.
     Returns (\<lparr>order = order q, lock = False, queueSlice = copyInto s (queueSlice q),
               numElements = numElements q, maxnumElements = maxnumElements q\<rparr>,
              Unlock q)))"

subsection \<open>UpdatePriority (queue/queue.go)\<close>

text \<open>
  The loop of the \<open>Lifo\<close>/\<open>Fifo\<close> case: \<open>done\<close> are the cells already visited. Every cell
  is taken to hold an element object of its own, so that \<^verbatim>\<open>e.SetPriority\<close> changes
  the visited cell only.
\<close>

fun updateLoop ::
  "real \<Rightarrow> real \<Rightarrow> int \<Rightarrow> 'a Element option list \<Rightarrow> 'a Element option list
     \<Rightarrow> ('a Element option list \<times> int) outcome" where
  "updateLoop oldPriority newPriority counter done [] = Returns (done, counter)"
| "updateLoop oldPriority newPriority counter done (e # es) =
     andThen (Priority e) (\<lambda>p.
     if p = oldPriority then
       andThen (SetPriority e newPriority) (\<lambda>e'.
       updateLoop oldPriority newPriority (counter + 1) (done @ [e']) es)
     else updateLoop oldPriority newPriority counter (done @ [e]) es)"

text \<open>
  The loop of the \<open>PriorityHigh\<close>/\<open>PriorityLow\<close> case ranges over the slice as it was
  when the loop began: iteration \<open>i\<close> reads cell \<open>b0 + i\<close> of the backing array, \<open>b0\<close>
  being the start of that slice, whatever the deletions have done to the array since.
  \<^verbatim>\<open>e.SetPriority\<close> writes through the pointer \<open>e\<close>: the cell \<open>e\<close> was read from still
  holds that object unless the deletion has just overwritten this very cell, which it does
  when it succeeds and the slice still starts at \<open>b0\<close>. \<open>modFlag\<close> is never set, so the
  loop has no early exit; \<open>counter\<close> is not touched in this case.
\<close>

definition cellAt :: "'a slice \<Rightarrow> nat \<Rightarrow> 'a outcome" where
  "cellAt s k =
     (if k < length (before s @ elems s @ spare s)
      then Returns ((before s @ elems s @ spare s) ! k) else Panics)"

definition setCell :: "'a slice \<Rightarrow> nat \<Rightarrow> 'a \<Rightarrow> 'a slice" where
  "setCell s k v =
     Slice (take (length (before s)) ((before s @ elems s @ spare s)[k := v]))
       (take (length (elems s)) (drop (length (before s)) ((before s @ elems s @ spare s)[k := v])))
       (drop (length (before s) + length (elems s)) ((before s @ elems s @ spare s)[k := v]))"

fun reinsert ::
  "(nat \<Rightarrow> nat \<Rightarrow> nat) \<Rightarrow> 'a Queue \<Rightarrow> 'a Element option list \<Rightarrow> 'a Queue outcome" where
  "reinsert g q [] = Returns q"
| "reinsert g q (e # es) = andThen (Insert g q e) (\<lambda>(err, q). reinsert g q es)"

fun priorityLoop ::
  "(nat \<Rightarrow> nat \<Rightarrow> nat) \<Rightarrow> real \<Rightarrow> real \<Rightarrow> bool \<Rightarrow> nat \<Rightarrow> nat \<Rightarrow> nat \<Rightarrow> 'a Queue
     \<Rightarrow> 'a Element option list \<Rightarrow> ('a Queue \<times> 'a Element option list) outcome" where
  "priorityLoop g oldPriority newPriority performanceFlag b0 i 0 q list = Returns (q, list)"
| "priorityLoop g oldPriority newPriority performanceFlag b0 i (Suc k) q list =
     andThen (cellAt (queueSlice q) (b0 + i)) (\<lambda>e.
     andThen (Priority e) (\<lambda>p.
     if p = oldPriority then
       andThen (deleteWithoutMemoryManagement q (int i)) (\<lambda>(r, q1).
       andThen (SetPriority e newPriority) (\<lambda>e'.
       (let q2 = (if isl r \<or> length (before (queueSlice q)) \<noteq> b0
                  then q1\<lparr>queueSlice := setCell (queueSlice q1) (b0 + i) e'\<rparr> else q1) in
        if performanceFlag then
          andThen (Insert g q2 e') (\<lambda>(err, q3).
          priorityLoop g oldPriority newPriority performanceFlag b0 (i + 1) k q3 list)
        else
          priorityLoop g oldPriority newPriority performanceFlag b0 (i + 1) k q2 (list @ [e']))))
     else priorityLoop g oldPriority newPriority performanceFlag b0 (i + 1) k q list))"

text \<open>
  \<open>UpdatePriority\<close> holds the mutex while it calls \<open>Insert\<close>, which takes the mutex
  itself. The list of detached elements is reinserted from its last element to its first.
\<close>

definition UpdatePriority ::
  "(nat \<Rightarrow> nat \<Rightarrow> nat) \<Rightarrow> 'a Queue \<Rightarrow> real \<Rightarrow> real \<Rightarrow> bool \<Rightarrow> (int \<times> 'a Queue) outcome" where
  "UpdatePriority g q oldPriority newPriority performanceFlag =
     andThen (Lock q) (\<lambda>q.
     andThen
       (if order q = Lifo \<or> order q = Fifo then
          andThen (updateLoop oldPriority newPriority 0 [] (elems (queueSlice q))) (\<lambda>(es, counter).
          Returns (counter,
            q\<lparr>queueSlice := Slice (before (queueSlice q)) es (spare (queueSlice q))\<rparr>, []))
        else if order q = PriorityHigh \<or> order q = PriorityLow then
          andThen (priorityLoop g oldPriority newPriority performanceFlag
                     (length (before (queueSlice q))) 0 (length (elems (queueSlice q))) q [])
            (\<lambda>(q, list). Returns (0, q, list))
        else Returns (0, q, []))
       (\<lambda>(counter, q, list).
        andThen
          (if (order q = PriorityHigh \<or> order q = PriorityLow) \<and> \<not> performanceFlag
           then reinsert g q (rev list) else Returns q)
          (\<lambda>q. Returns (counter, Unlock q))))"

section \<open>Fold and Map over a queue\<close>

text \<open>
  In \<open>FoldUnsecure\<close> the statement \<^verbatim>\<open>aggregate, err := f(aggregate, elem)\<close> declares a
  new \<open>aggregate\<close> inside the loop body: the step function always receives the outer
  variable, which keeps the initial value, and the new one is only returned together with
  an error.
\<close>

fun foldLoop ::
  "'b \<Rightarrow> ('b \<Rightarrow> 'a Element option \<Rightarrow> 'b \<times> error option) \<Rightarrow> int \<Rightarrow> 'a Element option list
     \<Rightarrow> 'b \<times> error option" where
  "foldLoop aggregate f i [] = (aggregate, None)"
| "foldLoop aggregate f i (elem # es) =
     (case f aggregate elem of
        (aggregate', Some err) \<Rightarrow>
          (aggregate', Some (Wrapf err ''folding element at position %d'' i))
      | (aggregate', None) \<Rightarrow> foldLoop aggregate f (i + 1) es)"

definition FoldUnsecure ::
  "'a Queue \<Rightarrow> 'b \<Rightarrow> ('b \<Rightarrow> 'a Element option \<Rightarrow> 'b \<times> error option) \<Rightarrow> 'b \<times> error option" where
  "FoldUnsecure q initial f = foldLoop initial f 0 (elems (queueSlice q))"

definition Fold ::
  "'a Queue \<Rightarrow> 'b \<Rightarrow> ('b \<Rightarrow> 'a Element option \<Rightarrow> 'b \<times> error option)
     \<Rightarrow> ('b \<times> error option) outcome" where
  "Fold q initial f = andThen (Lock q) (\<lambda>q. Returns (FoldUnsecure q initial f))"

text \<open>
  \<open>MapUnsecure\<close> gives the new queue a slice made by \<^verbatim>\<open>make([]Element[Tnew], q.numElements)\<close>,
  that is \<open>numElements\<close> nil cells, and the old \<open>numElements\<close>, and then inserts.
\<close>

fun mapLoop ::
  "(nat \<Rightarrow> nat \<Rightarrow> nat) \<Rightarrow> ('a Element option \<Rightarrow> 'b Element option \<times> bool \<times> error option)
     \<Rightarrow> int \<Rightarrow> 'a Element option list \<Rightarrow> 'b Queue \<Rightarrow> (error + 'b Queue) outcome" where
  "mapLoop g f i [] newQueue = Returns (Inr newQueue)"
| "mapLoop g f i (elem # es) newQueue =
     (case f elem of (newElem, keep, err) \<Rightarrow>
        if keep \<and> err = None then
          andThen (Insert g newQueue newElem) (\<lambda>(r, newQueue). mapLoop g f (i + 1) es newQueue)
        else
          (case err of
             Some e \<Rightarrow> Returns (Inl (Wrapf e ''mapping element at position %d'' i))
           | None \<Rightarrow> mapLoop g f (i + 1) es newQueue))"

definition MapUnsecure ::
  "(nat \<Rightarrow> nat \<Rightarrow> nat) \<Rightarrow> 'a Queue
     \<Rightarrow> ('a Element option \<Rightarrow> 'b Element option \<times> bool \<times> error option)
     \<Rightarrow> (error + 'b Queue) outcome" where
  "MapUnsecure g q f =
     andThen (makeSlice (numElements q) (numElements q)) (\<lambda>s.
     mapLoop g f 0 (elems (queueSlice q))
       \<lparr>order = order q, lock = False, queueSlice = s,
        numElements = numElements q, maxnumElements = maxnumElements q\<rparr>)"

definition Map ::
  "(nat \<Rightarrow> nat \<Rightarrow> nat) \<Rightarrow> 'a Queue
     \<Rightarrow> ('a Element option \<Rightarrow> 'b Element option \<times> bool \<times> error option)
     \<Rightarrow> (error + 'b Queue) outcome" where
  "Map g q f = andThen (Lock q) (\<lambda>q. MapUnsecure g q f)"

section \<open>Runs\<close>

text \<open>
  The concrete runs below use a doubling growth policy: the capacity doubles, or becomes the
  needed length when that is larger.
\<close>

definition growDouble :: "nat \<Rightarrow> nat \<Rightarrow> nat" where
  "growDouble c n = (if n > 2 * c then n else 2 * c)"

text \<open>Inserting a list of elements one after the other, from a given queue.\<close>

fun insertAll ::
  "(nat \<Rightarrow> nat \<Rightarrow> nat) \<Rightarrow> 'a Queue \<Rightarrow> 'a Element option list \<Rightarrow> 'a Queue outcome" where
  "insertAll g q [] = Returns q"
| "insertAll g q (e # es) = andThen (Insert g q e) (\<lambda>(err, q). insertAll g q es)"

text \<open>The step function that appends the content of each element to the aggregate.\<close>

definition collect :: "'a list \<Rightarrow> 'a Element option \<Rightarrow> 'a list \<times> error option" where
  "collect aggregate elem =
     (case elem of
        None \<Rightarrow> (aggregate, Some (ErrOther ''nil element''))
      | Some (PriorityElement p c) \<Rightarrow> (aggregate @ [c], None)
      | Some (BaseElement c) \<Rightarrow> (aggregate @ [c], None))"

text \<open>The projector that keeps every element as it is.\<close>

definition keepAll :: "'a Element option \<Rightarrow> 'a Element option \<times> bool \<times> error option" where
  "keepAll elem = (elem, True, None)"

text \<open>
  Sequences of public operations. \<open>Insert\<close> is called with a non-nil element; the error
  an operation returns is dropped, a panic ends the run.
\<close>

datatype 'a operation = OpInsert "'a Element" | OpRemove | OpSetLimit int

fun step :: "(nat \<Rightarrow> nat \<Rightarrow> nat) \<Rightarrow> 'a Queue \<Rightarrow> 'a operation \<Rightarrow> 'a Queue outcome" where
  "step g q (OpInsert e) = andThen (Insert g q (Some e)) (\<lambda>(err, q). Returns q)"
| "step g q OpRemove = andThen (Remove q) (\<lambda>(r, q). Returns q)"
| "step g q (OpSetLimit limit) = Returns (snd (SetLimit q limit))"

fun run :: "(nat \<Rightarrow> nat \<Rightarrow> nat) \<Rightarrow> 'a Queue \<Rightarrow> 'a operation list \<Rightarrow> 'a Queue outcome" where
  "run g q [] = Returns q"
| "run g q (x # xs) = andThen (step g q x) (\<lambda>q. run g q xs)"

section \<open>Invariant of the buffer\<close>

text \<open>
  \<open>numElements\<close> is not negative and not larger than the length of the slice, and no cell
  of the slice is nil.
\<close>

definition wellFormed :: "'a Queue \<Rightarrow> bool" where
  "wellFormed q \<longleftrightarrow>
     0 \<le> numElements q \<and> numElements q \<le> len (queueSlice q)
     \<and> None \<notin> set (elems (queueSlice q))"

text \<open>A step that only replaces the slice by one with one more cell, the new element.\<close>

definition grownBy :: "'a Queue \<Rightarrow> 'a Element option \<Rightarrow> 'a Queue \<Rightarrow> bool" where
  "grownBy q elem q' \<longleftrightarrow>
     (\<exists>s. q' = q\<lparr>queueSlice := s\<rparr> \<and> length (elems s) = Suc (length (elems (queueSlice q)))
          \<and> set (elems s) = insert elem (set (elems (queueSlice q))))"

section \<open>Removing until the queue is empty\<close>

text \<open>
  The shrink never fails: the new capacity is at least the length, because the factor
  after the shrink is not smaller than the threshold. It replaces the backing array and
  keeps every cell of the slice.
\<close>

lemma andThen_Returns:
  "andThen m f = Returns y \<longleftrightarrow> (\<exists>x. m = Returns x \<and> f x = Returns y)"
  by (cases m) simp_all

lemma shrink_factors: "shrinkFactor q \<le> afterShrinkFactor q"
  by (simp add: shrinkFactor_def afterShrinkFactor_def)

lemma handleShrink_returns:
  "\<exists>b sp. handleShrink q = Returns (q\<lparr>queueSlice := Slice b (elems (queueSlice q)) sp\<rparr>)"
proof (cases "real_of_int (len (queueSlice q)) < shrinkFactor q * real_of_int (cap (queueSlice q))")
  case False
  then have "handleShrink q = Returns (q\<lparr>queueSlice :=
      Slice (before (queueSlice q)) (elems (queueSlice q)) (spare (queueSlice q))\<rparr>)"
    by (simp add: handleShrink_def Let_def)
  then show ?thesis by blast
next
  case True
  have cap0: "0 \<le> cap (queueSlice q)" "len (queueSlice q) \<le> cap (queueSlice q)" "0 \<le> len (queueSlice q)"
    by (simp_all add: cap_def len_def)
  have "shrinkFactor q * real_of_int (cap (queueSlice q)) \<le> afterShrinkFactor q * real_of_int (cap (queueSlice q))"
    using shrink_factors [of q] cap0(1) by (simp add: mult_right_mono)
  with True have "real_of_int (len (queueSlice q)) < afterShrinkFactor q * real_of_int (cap (queueSlice q))"
    by linarith
  then have b: "len (queueSlice q) \<le> \<lceil>afterShrinkFactor q * real_of_int (cap (queueSlice q))\<rceil>"
    by (meson less_ceiling_iff less_le_not_le linorder_le_cases order.strict_trans2 of_int_le_iff le_of_int_ceiling)
  have "handleShrink q = Returns (q\<lparr>queueSlice := Slice [] (elems (queueSlice q))
      (replicate (nat (\<lceil>afterShrinkFactor q * real_of_int (cap (queueSlice q))\<rceil> - len (queueSlice q))) None)\<rparr>)"
    using True b cap0
    by (simp add: handleShrink_def Let_def makeSlice_def sliceTo_def copyInto_def len_def cap_def)
  then show ?thesis by blast
qed

text \<open>A \<open>Remove\<close> that returns an element has decremented \<open>numElements\<close>, which was positive.\<close>

lemma Remove_decreases:
  assumes "Remove q = Returns (Inr v, q')"
  shows "0 < numElements q \<and> numElements q' = numElements q - 1"
proof -
  from assms have nl: "\<not> lock q" by (auto simp: Remove_def Lock_def split: if_splits)
  let ?q = "q\<lparr>lock := True\<rparr>"
  from assms nl obtain r0 q1 where r0: "remove ?q (numElements q - 1) = Returns (r0, q1)"
    and k: "(case r0 of Inl err \<Rightarrow> Returns (Inl err, Unlock q1)
             | Inr elem \<Rightarrow> andThen (Content elem) (\<lambda>c. andThen (Priority elem) (\<lambda>p.
                 Returns (Inr (c, p), Unlock q1)))) = Returns (Inr v, q')"
    by (auto simp: Remove_def Lock_def andThen_Returns)
  from k obtain e where e: "r0 = Inr e" and q': "numElements q' = numElements q1"
    by (cases r0) (auto simp: andThen_Returns Unlock_def)
  from r0 e have r: "remove ?q (numElements q - 1) = Returns (Inr e, q1)" by simp
  from r obtain r1 q0 where d0: "deleteWithoutMemoryManagement ?q (numElements q - 1) = Returns (r1, q0)"
    and h: "handleShrink q0 = Returns q1"
    and r1: "(case r1 of Inl err \<Rightarrow> Inl (Wrap err ''removing element'') | Inr elem \<Rightarrow> Inr elem) = Inr e"
    by (auto simp: remove_def andThen_Returns)
  from r1 have "r1 = Inr e" by (cases r1) simp_all
  with d0 have d: "deleteWithoutMemoryManagement ?q (numElements q - 1) = Returns (Inr e, q0)"
    by simp
  from handleShrink_returns [of q0] h have "numElements q1 = numElements q0" by auto
  moreover from d have "0 < numElements q \<and> numElements q0 = numElements q - 1"
    by (auto simp: deleteWithoutMemoryManagement_def Let_def andThen_Returns split: if_splits)
  ultimately show ?thesis using q' by simp
qed

text \<open>
  \<open>drain\<close> calls \<open>Remove\<close> until it returns an error; it returns the removed
  (content, priority) pairs and that error.
\<close>

function drain :: "'a Queue \<Rightarrow> (('a \<times> real) list \<times> error) outcome" where
  "drain q =
     (case Remove q of
        Returns (Inr v, q') \<Rightarrow> andThen (drain q') (\<lambda>(vs, err). Returns (v # vs, err))
      | Returns (Inl err, q') \<Rightarrow> Returns ([], err)
      | Panics \<Rightarrow> Panics
      | Blocks \<Rightarrow> Blocks)"
  by pat_completeness auto

termination
  by (relation "measure (\<lambda>q. nat (numElements q))") (auto dest!: Remove_decreases)

declare drain.simps [simp del]

section \<open>Construction\<close>

text \<open>
  C7. \<open>NewQueue\<close> is claimed to fail for every value outside the five disciplines
  \<open>0..4\<close>. The guard compares with \<open>numQueuetypes = 5\<close> using \<open>>\<close>, so the value \<open>5\<close>
  is accepted: \<open>NewQueue 5\<close> returns an empty queue of order \<open>5\<close>, not
  \<open>ErrInvalidQueueType\<close>.
\<close>

theorem NewQueue_accepts_5:
  "(NewQueue 5 :: error + string Queue) =
     Inr \<lparr>order = 5, lock = False, queueSlice = Slice [] [] [],
          numElements = 0, maxnumElements = 0\<rparr>
   \<and> 5 \<notin> {Fifo, Lifo, PriorityHigh, PriorityLow, FifoLimited}"
  by (simp add: NewQueue_def numQueuetypes_def Fifo_def Lifo_def PriorityHigh_def
      PriorityLow_def FifoLimited_def)

section \<open>The tail of the buffer\<close>

text \<open>
  C1. After every \<open>Insert\<close>, the element at index \<open>numElements - 1\<close> is claimed to be the
  one the discipline removes next (for \<open>PriorityHigh\<close> the oldest element of the highest
  priority, for \<open>FifoLimited\<close> the oldest element). \<open>insertPriorityHigh\<close> does not
  return after \<open>backtrackInsertionPoint\<close>, so an element that ties with the tail is
  inserted a second time by the default loop, while \<open>numElements\<close> grows by one. After
  inserting the priorities \<open>1, 2, 3, 5, 5\<close> the buffer holds six cells, \<open>numElements\<close> is
  \<open>5\<close>, the cell at index \<open>4\<close> has priority \<open>1\<close>, and \<open>Remove\<close> returns that element
  although two elements of priority \<open>5\<close> are in the queue. In a \<open>FifoLimited\<close> queue one
  \<open>Insert\<close> leaves \<open>numElements = 0\<close>: there is no index \<open>numElements - 1\<close>, and
  \<open>Remove\<close> returns an error instead of the element.
\<close>

theorem tail_is_not_next_removed:
  "andThen (insertAll growDouble (projr (NewQueue PriorityHigh))
      [NewPriorityElement ''a'' 1, NewPriorityElement ''b'' 2, NewPriorityElement ''c'' 3,
       NewPriorityElement ''d'' 5, NewPriorityElement ''e'' 5])
     (\<lambda>q. Returns (numElements q, elems (queueSlice q)))
   = Returns (5,
       [Some (PriorityElement 5 ''e''), Some (PriorityElement 3 ''c''),
        Some (PriorityElement 5 ''d''), Some (PriorityElement 5 ''e''),
        Some (PriorityElement 1 ''a''), Some (PriorityElement 2 ''b'')])
   \<and> andThen (insertAll growDouble (projr (NewQueue PriorityHigh))
      [NewPriorityElement ''a'' 1, NewPriorityElement ''b'' 2, NewPriorityElement ''c'' 3,
       NewPriorityElement ''d'' 5, NewPriorityElement ''e'' 5])
     (\<lambda>q. andThen (Remove q) (\<lambda>(r, q). Returns r))
   = Returns (Inr (''a'', 1))
   \<and> andThen (Insert growDouble (projr (NewQueue FifoLimited)) (NewBaseElement ''a''))
     (\<lambda>(err, q). andThen (Remove q)
        (\<lambda>(r, q'). Returns (err, numElements q, elems (queueSlice q), r)))
   = Returns (None, 0, [Some (BaseElement ''a'')], Inl (Wrap ErrEmptyQueue ''removing element''))"
  by code_simp

text \<open>
  C2. Three elements of priority \<open>5\<close> inserted into a \<open>PriorityHigh\<close> queue are claimed
  to come out in insertion order. The second \<open>Insert\<close> already panics: after
  \<open>backtrackInsertionPoint\<close> has put the element in front, the default loop stops at
  index \<open>0\<close> and evaluates \<^verbatim>\<open>q.queueSlice[:(i-1)]\<close> with \<open>i = 0\<close>.
\<close>

theorem PriorityHigh_equal_priorities_panic:
  "andThen (Insert growDouble (projr (NewQueue PriorityHigh)) (NewPriorityElement ''a'' 5))
     (\<lambda>(err, q). Insert growDouble q (NewPriorityElement ''b'' 5)) = Panics
   \<and> insertAll growDouble (projr (NewQueue PriorityHigh))
       [NewPriorityElement ''a'' 5, NewPriorityElement ''b'' 5, NewPriorityElement ''c'' 5]
     = Panics"
  by code_simp

section \<open>The limited queue\<close>

text \<open>
  C3. A \<open>FifoLimited\<close> queue with limit \<open>3\<close> is claimed to hold \<open>c, d, e\<close> after the
  inserts \<open>a, b, c, d, e\<close> and to return them in that order. \<open>Insert\<close> returns from the
  \<open>FifoLimited\<close> case before \<^verbatim>\<open>q.numElements++\<close>, so \<open>numElements\<close> stays \<open>0\<close>: the
  queue is never full, nothing is evicted, the buffer holds all five elements, and
  \<open>Remove\<close> answers with the (wrapped) \<open>ErrEmptyQueue\<close>.
\<close>

theorem FifoLimited_never_counts:
  "andThen (insertAll growDouble (snd (SetLimit (projr (NewQueue FifoLimited)) 3))
      (map NewBaseElement [''a'', ''b'', ''c'', ''d'', ''e'']))
     (\<lambda>q. Returns (numElements q, maxnumElements q, elems (queueSlice q)))
   = Returns (0, 3,
       [Some (BaseElement ''e''), Some (BaseElement ''d''), Some (BaseElement ''c''),
        Some (BaseElement ''b''), Some (BaseElement ''a'')])
   \<and> andThen (insertAll growDouble (snd (SetLimit (projr (NewQueue FifoLimited)) 3))
      (map NewBaseElement [''a'', ''b'', ''c'', ''d'', ''e'']))
     (\<lambda>q. andThen (Remove q) (\<lambda>(r, q). Returns r))
   = Returns (Inl (Wrap ErrEmptyQueue ''removing element''))"
  by code_simp

section \<open>Fold and Map\<close>

text \<open>
  C4. \<open>Fold\<close> is claimed to return the left-to-right reduction of the step function over
  the buffer. The loop of \<open>FoldUnsecure\<close> never assigns to the outer \<open>aggregate\<close>, so a
  fold whose step function never fails returns the initial value: folding \<open>collect\<close>
  over a \<open>Lifo\<close> queue holding \<open>a, b\<close> returns the empty list, not \<open>[a, b]\<close>.
\<close>

theorem Fold_returns_initial:
  "andThen (insertAll growDouble (projr (NewQueue Lifo)) (map NewBaseElement [''a'', ''b'']))
     (\<lambda>q. Returns (elems (queueSlice q)))
   = Returns [Some (BaseElement ''a''), Some (BaseElement ''b'')]
   \<and> andThen (insertAll growDouble (projr (NewQueue Lifo)) (map NewBaseElement [''a'', ''b'']))
     (\<lambda>q. Fold q [] collect)
   = Returns ([], None)"
  by code_simp

text \<open>
  C5. \<open>Map\<close> with the identity projector is claimed to give a queue with the same
  \<open>GetAllElements\<close>, discipline and limit. For a \<open>Fifo\<close> queue holding the one element
  \<open>a\<close>, the new queue starts with one nil cell and \<open>numElements = 1\<close>; after the insert it
  holds \<open>a\<close> and nil with \<open>numElements = 2\<close>. Discipline and limit are the original's, but
  \<open>GetAllElements\<close> of the new queue panics on the nil cell, while the original's returns
  a zero value and \<open>a\<close>.
\<close>

theorem Map_identity_leaves_nil:
  "andThen (insertAll growDouble (projr (NewQueue Fifo)) [NewBaseElement ''a''])
     (\<lambda>q. andThen (Map growDouble q keepAll)
       (\<lambda>r. Returns (map_sum id
          (\<lambda>q'. (elems (queueSlice q'), numElements q', order q' = order q,
                   maxnumElements q' = maxnumElements q)) r)))
   = Returns (Inr ([Some (BaseElement ''a''), None], 2, True, True))
   \<and> andThen (insertAll growDouble (projr (NewQueue Fifo)) [NewBaseElement ''a''])
     (\<lambda>q. andThen (Map growDouble q keepAll) (\<lambda>r. GetAllElements ''zero'' (projr r)))
   = Panics
   \<and> andThen (insertAll growDouble (projr (NewQueue Fifo)) [NewBaseElement ''a''])
       (GetAllElements ''zero'')
   = Returns [''zero'', ''a'']"
  by code_simp

section \<open>Reading by index\<close>

text \<open>
  C8. \<open>PeekElemAtIndex\<close> is claimed to return \<open>ErrIndexOutOfBounds\<close> for every index
  outside the live range of a non-empty queue, negative ones included. Only
  \<open>realIndex < 0\<close> is checked, which catches the indices from \<open>numElements\<close> on; a
  negative index gives a \<open>realIndex\<close> beyond the end of the slice, and the read panics.
\<close>

theorem PeekElemAtIndex_negative_panics:
  "andThen (insertAll growDouble (projr (NewQueue Lifo)) [NewBaseElement ''a''])
     (\<lambda>q. Returns (numElements q)) = Returns 1
   \<and> andThen (insertAll growDouble (projr (NewQueue Lifo)) [NewBaseElement ''a''])
     (\<lambda>q. PeekElemAtIndex q (- 1)) = Panics
   \<and> andThen (insertAll growDouble (projr (NewQueue Lifo)) [NewBaseElement ''a''])
     (\<lambda>q. PeekElemAtIndex q 1) = Returns (Inl ErrIndexOutOfBounds)"
  by code_simp

text \<open>
  C10. On a queue with \<open>numElements = 0\<close>, whatever the index, \<open>PeekElemAtIndex\<close> (called
  with the mutex free) returns \<open>ErrEmptyQueue\<close>, and so does
  \<open>deleteWithoutMemoryManagement\<close>, which leaves the queue as it is: the emptiness check
  comes before the bounds check.
\<close>

theorem empty_check_first:
  assumes "numElements q = 0" and "\<not> lock q"
  shows "PeekElemAtIndex q idx = Returns (Inl ErrEmptyQueue)
       \<and> deleteWithoutMemoryManagement q idx = Returns (Inl ErrEmptyQueue, q)"
  using assms by (simp add: PeekElemAtIndex_def deleteWithoutMemoryManagement_def Lock_def)

theorem empty_check_first_witness:
  "numElements (projr (NewQueue Fifo) :: string Queue) = 0
   \<and> \<not> lock (projr (NewQueue Fifo) :: string Queue)
   \<and> PeekElemAtIndex (projr (NewQueue Fifo) :: string Queue) (- 3) = Returns (Inl ErrEmptyQueue)
   \<and> deleteWithoutMemoryManagement (projr (NewQueue Fifo) :: string Queue) (- 3)
       = Returns (Inl ErrEmptyQueue, projr (NewQueue Fifo))"
  using empty_check_first [of "projr (NewQueue Fifo) :: string Queue" "- 3"]
  by (simp add: NewQueue_def numQueuetypes_def Fifo_def)

section \<open>UpdatePriority\<close>

text \<open>
  C9. \<open>UpdatePriority\<close> is claimed to return, under every discipline, the number of
  elements whose priority was \<open>oldPriority\<close>. In the \<open>PriorityHigh\<close>/\<open>PriorityLow\<close> case
  the counter is never incremented, and every match leads to a call of \<open>Insert\<close> while
  the mutex is held, which never returns; the \<open>FifoLimited\<close> discipline has no case at
  all. On a queue holding one element of priority \<open>1\<close>, \<open>UpdatePriority 1 2\<close> blocks
  under \<open>PriorityHigh\<close> (in both modes) and returns \<open>0\<close> under \<open>FifoLimited\<close>, leaving
  the priority as it was; under \<open>Fifo\<close> it returns \<open>1\<close>.
\<close>

theorem UpdatePriority_miscounts:
  "andThen (insertAll growDouble (projr (NewQueue PriorityHigh)) [NewPriorityElement ''a'' 1])
     (\<lambda>q. UpdatePriority growDouble q 1 2 False) = Blocks
   \<and> andThen (insertAll growDouble (projr (NewQueue PriorityHigh)) [NewPriorityElement ''a'' 1])
     (\<lambda>q. UpdatePriority growDouble q 1 2 True) = Blocks
   \<and> andThen (insertAll growDouble (projr (NewQueue FifoLimited)) [NewPriorityElement ''a'' 1])
     (\<lambda>q. andThen (UpdatePriority growDouble q 1 2 False)
        (\<lambda>(n, q). Returns (n, elems (queueSlice q))))
     = Returns (0, [Some (PriorityElement 1 ''a'')])
   \<and> andThen (insertAll growDouble (projr (NewQueue Fifo)) [NewPriorityElement ''a'' 1])
     (\<lambda>q. andThen (UpdatePriority growDouble q 1 2 False)
        (\<lambda>(n, q). Returns (n, elems (queueSlice q))))
     = Returns (1, [Some (PriorityElement 2 ''a'')])"
  by code_simp

section \<open>The live count\<close>

lemma delete_tail:
  assumes "wellFormed q" and "0 < numElements q"
  shows "\<exists>e s. deleteWithoutMemoryManagement q (numElements q - 1)
           = Returns (Inr (Some e), q\<lparr>queueSlice := s, numElements := numElements q - 1\<rparr>)
         \<and> numElements q - 1 \<le> len s \<and> set (elems s) \<subseteq> set (elems (queueSlice q))"
proof -
  let ?es = "elems (queueSlice q)"
  obtain k where k: "numElements q = int (Suc k)"
    using assms(2) by (metis Suc_pred' pos_int_cases)
  have kl: "k < length ?es"
    using assms(1) k by (simp add: wellFormed_def len_def)
  have "?es ! k \<in> set ?es" using kl by simp
  moreover have "None \<notin> set ?es" using assms(1) by (simp add: wellFormed_def)
  ultimately have "?es ! k \<noteq> None" by metis
  then obtain e where e: "?es ! k = Some e" by auto
  show ?thesis
  proof (cases k)
    case 0
    have "deleteWithoutMemoryManagement q (numElements q - 1)
        = Returns (Inr (Some e), q\<lparr>queueSlice :=
            Slice (before (queueSlice q) @ [None]) (drop 1 ?es) (spare (queueSlice q)),
            numElements := numElements q - 1\<rparr>)"
      using k kl e 0
      by (cases "elems (queueSlice q)")
         (simp_all add: deleteWithoutMemoryManagement_def Let_def elemAt_def setIndex_def
           sliceFrom_def len_def)
    moreover have "set (drop 1 ?es) \<subseteq> set ?es" by (rule set_drop_subset)
    ultimately show ?thesis using k 0
      by (intro exI [of _ e]
            exI [of _ "Slice (before (queueSlice q) @ [None]) (drop 1 ?es) (spare (queueSlice q))"])
         (simp add: len_def)
  next
    case (Suc j)
    have [simp]: "nat (1 + int j) = Suc j" by linarith
    have "deleteWithoutMemoryManagement q (numElements q - 1)
        = Returns (Inr (Some e), q\<lparr>queueSlice :=
            Slice (before (queueSlice q)) (take k ?es)
              (drop k ((take k ?es @ drop (Suc k) ?es @ [last ?es])[k := None] @ spare (queueSlice q))),
            numElements := numElements q - 1\<rparr>)"
      using k kl e Suc
      by (simp add: deleteWithoutMemoryManagement_def Let_def elemAt_def setIndex_def
          sliceTo_def copyDown_def len_def cap_def)
    moreover have "set (take k ?es) \<subseteq> set ?es" by (rule set_take_subset)
    ultimately show ?thesis using k kl
      by (intro exI [of _ e]
            exI [of _ "Slice (before (queueSlice q)) (take k ?es)
              (drop k ((take k ?es @ drop (Suc k) ?es @ [last ?es])[k := None] @ spare (queueSlice q)))"])
         (simp add: len_def)
  qed
qed

lemma remove_tail:
  assumes "wellFormed q" and "0 < numElements q"
  shows "\<exists>e q'. remove q (numElements q - 1) = Returns (Inr (Some e), q')
         \<and> wellFormed q' \<and> numElements q' = numElements q - 1
         \<and> lock q' = lock q \<and> order q' = order q \<and> maxnumElements q' = maxnumElements q"
proof -
  obtain e s where d: "deleteWithoutMemoryManagement q (numElements q - 1)
        = Returns (Inr (Some e), q\<lparr>queueSlice := s, numElements := numElements q - 1\<rparr>)"
    and s: "numElements q - 1 \<le> len s" "set (elems s) \<subseteq> set (elems (queueSlice q))"
    using delete_tail [OF assms] by blast
  let ?q1 = "q\<lparr>queueSlice := s, numElements := numElements q - 1\<rparr>"
  obtain b sp where h: "handleShrink ?q1 = Returns (?q1\<lparr>queueSlice := Slice b (elems (queueSlice ?q1)) sp\<rparr>)"
    using handleShrink_returns [of ?q1] by blast
  have "remove q (numElements q - 1)
      = Returns (Inr (Some e), ?q1\<lparr>queueSlice := Slice b (elems s) sp\<rparr>)"
    using d h by (simp add: remove_def)
  moreover have "wellFormed (?q1\<lparr>queueSlice := Slice b (elems s) sp\<rparr>)"
    using assms s by (auto simp: wellFormed_def len_def)
  ultimately show ?thesis
    by (intro exI [of _ e] exI [of _ "?q1\<lparr>queueSlice := Slice b (elems s) sp\<rparr>"]) simp
qed

lemma remove_empty:
  assumes "numElements q = 0"
  shows "\<exists>b sp. remove q i = Returns (Inl (Wrap ErrEmptyQueue ''removing element''),
            q\<lparr>queueSlice := Slice b (elems (queueSlice q)) sp\<rparr>)"
proof -
  obtain b sp where "handleShrink q = Returns (q\<lparr>queueSlice := Slice b (elems (queueSlice q)) sp\<rparr>)"
    using handleShrink_returns [of q] by blast
  then have "remove q i = Returns (Inl (Wrap ErrEmptyQueue ''removing element''),
            q\<lparr>queueSlice := Slice b (elems (queueSlice q)) sp\<rparr>)"
    using assms by (simp add: remove_def deleteWithoutMemoryManagement_def)
  then show ?thesis by blast
qed

lemma wellFormed_lock [simp]: "wellFormed (q\<lparr>lock := b\<rparr>) = wellFormed q"
  by (simp add: wellFormed_def)

lemma Remove_nonempty:
  assumes "wellFormed q" and "\<not> lock q" and "0 < numElements q"
  shows "\<exists>v q'. Remove q = Returns (Inr v, q') \<and> wellFormed q' \<and> \<not> lock q'
         \<and> numElements q' = numElements q - 1 \<and> order q' = order q
         \<and> maxnumElements q' = maxnumElements q"
proof -
  let ?q = "q\<lparr>lock := True\<rparr>"
  have "wellFormed ?q" "0 < numElements ?q" using assms by simp_all
  from remove_tail [OF this] obtain e q' where
    r: "remove ?q (numElements q - 1) = Returns (Inr (Some e), q')" and
    q': "wellFormed q'" "numElements q' = numElements q - 1" "order q' = order q"
       "maxnumElements q' = maxnumElements q"
    by auto
  obtain c p where cp: "Content (Some e) = Returns c" "Priority (Some e) = Returns p"
    by (cases e) simp_all
  have "Remove q = Returns (Inr (c, p), Unlock q')"
    using assms(2) r cp by (simp add: Remove_def Lock_def)
  then show ?thesis using q'
    by (intro exI [of _ "(c, p)"] exI [of _ "Unlock q'"]) (simp add: Unlock_def)
qed

lemma Remove_empty:
  assumes "wellFormed q" and "\<not> lock q" and "numElements q = 0"
  shows "\<exists>q'. Remove q = Returns (Inl (Wrap ErrEmptyQueue ''removing element''), q')
         \<and> wellFormed q' \<and> \<not> lock q' \<and> numElements q' = 0 \<and> order q' = order q
         \<and> maxnumElements q' = maxnumElements q"
proof -
  let ?q = "q\<lparr>lock := True\<rparr>"
  have "numElements ?q = 0" using assms by simp
  from remove_empty [OF this, of "numElements q - 1"] obtain b sp where
    r: "remove ?q (numElements q - 1) = Returns (Inl (Wrap ErrEmptyQueue ''removing element''),
            ?q\<lparr>queueSlice := Slice b (elems (queueSlice ?q)) sp\<rparr>)"
    by blast
  have "Remove q = Returns (Inl (Wrap ErrEmptyQueue ''removing element''),
      Unlock (?q\<lparr>queueSlice := Slice b (elems (queueSlice ?q)) sp\<rparr>))"
    using assms(2) r by (simp add: Remove_def Lock_def)
  then show ?thesis using assms
    by (intro exI [of _ "Unlock (?q\<lparr>queueSlice := Slice b (elems (queueSlice ?q)) sp\<rparr>)"])
       (simp add: Unlock_def wellFormed_def len_def)
qed

lemma elems_appendSlice [simp]: "elems (appendSlice g s xs) = elems s @ xs"
  by (simp add: appendSlice_def)

lemma grownBy_trans:
  "grownBy q elem q1 \<Longrightarrow> grownBy q1 elem q2 \<Longrightarrow>
   \<exists>s. q2 = q\<lparr>queueSlice := s\<rparr> \<and> length (elems s) = Suc (Suc (length (elems (queueSlice q))))
          \<and> set (elems s) = insert elem (set (elems (queueSlice q)))"
  by (auto simp: grownBy_def)

lemma spliceBefore_grows:
  assumes "spliceBefore g q elem i = Returns q'"
  shows "grownBy q elem q'"
proof -
  let ?s = "queueSlice q"
  from assms obtain sf sb where
    f: "sliceTo ?s (i - 1) = Returns sf" and b: "sliceFrom ?s (i - 1) = Returns sb"
    and q': "q' = q\<lparr>queueSlice :=
       appendSlice g sf (elems (appendSlice g (Slice [] [elem] []) (elems sb)))\<rparr>"
    by (auto simp: spliceBefore_def andThen_Returns)
  from b have i: "0 \<le> i - 1" "nat (i - 1) \<le> length (elems ?s)"
    and sb: "elems sb = drop (nat (i - 1)) (elems ?s)"
    by (auto simp: sliceFrom_def len_def split: if_splits)
  from f i have sf: "elems sf = take (nat (i - 1)) (elems ?s)"
    by (auto simp: sliceTo_def split: if_splits)
  have "set (take (nat (i - 1)) (elems ?s)) \<union> set (drop (nat (i - 1)) (elems ?s)) = set (elems ?s)"
    by (metis append_take_drop_id set_append)
  then show ?thesis
    unfolding grownBy_def using q' sf sb i
    by (intro exI [of _ "appendSlice g sf (elems (appendSlice g (Slice [] [elem] []) (elems sb)))"])
       auto
qed

lemma backtrackLoop_grows:
  "backtrackLoop g q elem k = Returns q' \<Longrightarrow> grownBy q elem q'"
proof (induction k)
  case 0
  then show ?case
    unfolding grownBy_def
    by (intro exI [of _ "appendSlice g (Slice [] [elem] []) (elems (queueSlice q))"]) auto
next
  case (Suc i)
  let ?s = "queueSlice q"
  from Suc.prems obtain e p pe where
    e: "elemAt ?s (int i) = Returns e" and p: "Priority e = Returns p"
    and pe: "Priority elem = Returns pe"
    and rest: "(if p = pe then backtrackLoop g q elem i
       else andThen (sliceFrom ?s (int i)) (\<lambda>back.
            andThen (sliceTo ?s (int i)) (\<lambda>front.
            Returns (q\<lparr>queueSlice :=
              appendSlice g back (elems (appendSlice g (Slice [] [elem] []) (elems front)))\<rparr>))))
       = Returns q'"
    by (auto simp: andThen_Returns)
  show ?case
  proof (cases "p = pe")
    case True
    with rest Suc.IH show ?thesis by simp
  next
    case False
    from e have i: "i < length (elems ?s)" by (auto simp: elemAt_def len_def split: if_splits)
    from False rest i have q': "q' = q\<lparr>queueSlice := appendSlice g
          (Slice (before ?s @ take i (elems ?s)) (drop i (elems ?s)) (spare ?s))
          (elems (appendSlice g (Slice [] [elem] []) (take i (elems ?s))))\<rparr>"
      by (auto simp: andThen_Returns sliceFrom_def sliceTo_def len_def cap_def split: if_splits)
    have "set (take i (elems ?s)) \<union> set (drop i (elems ?s)) = set (elems ?s)"
      by (metis append_take_drop_id set_append)
    then show ?thesis
      unfolding grownBy_def using q' i
      by (intro exI [of _ "appendSlice g
          (Slice (before ?s @ take i (elems ?s)) (drop i (elems ?s)) (spare ?s))
          (elems (appendSlice g (Slice [] [elem] []) (take i (elems ?s))))"]) auto
  qed
qed

lemma rangeHigh_cases:
  "rangeHigh g q elem i es = Returns q' \<Longrightarrow>
     grownBy q elem q' \<or> (q' = q \<and> (\<forall>e\<in>set es. \<exists>p pe. Priority e = Returns p
         \<and> Priority elem = Returns pe \<and> p < pe))"
proof (induction es arbitrary: i)
  case Nil
  then show ?case by simp
next
  case (Cons e es)
  from Cons.prems obtain p pe where p: "Priority e = Returns p" and pe: "Priority elem = Returns pe"
    and rest: "(if p < pe then rangeHigh g q elem (i + 1) es else spliceBefore g q elem i) = Returns q'"
    by (auto simp: andThen_Returns)
  show ?case
  proof (cases "p < pe")
    case True
    with rest Cons.IH [of "i + 1"] p pe show ?thesis by auto
  next
    case False
    with rest show ?thesis by (simp add: spliceBefore_grows)
  qed
qed

lemma rangeLow_cases:
  "rangeLow g q elem i es = Returns q' \<Longrightarrow>
     grownBy q elem q' \<or> (q' = q \<and> (\<forall>e\<in>set es. \<exists>p pe. Priority e = Returns p
         \<and> Priority elem = Returns pe \<and> p > pe))"
proof (induction es arbitrary: i)
  case Nil
  then show ?case by simp
next
  case (Cons e es)
  from Cons.prems obtain p pe where p: "Priority e = Returns p" and pe: "Priority elem = Returns pe"
    and rest: "(if p > pe then rangeLow g q elem (i + 1) es else spliceBefore g q elem i) = Returns q'"
    by (auto simp: andThen_Returns)
  show ?case
  proof (cases "p > pe")
    case True
    with rest Cons.IH [of "i + 1"] p pe show ?thesis by auto
  next
    case False
    with rest show ?thesis by (simp add: spliceBefore_grows)
  qed
qed

lemma grownBy_wellFormed:
  assumes "wellFormed q" and "grownBy q (Some e) q'"
  shows "wellFormed (q'\<lparr>numElements := numElements q + 1\<rparr>)" and "wellFormed q'"
    and "lock q' = lock q" and "numElements q' = numElements q"
    and "order q' = order q" and "maxnumElements q' = maxnumElements q"
proof -
  from assms(2) obtain s where q': "q' = q\<lparr>queueSlice := s\<rparr>"
    and l: "length (elems s) = Suc (length (elems (queueSlice q)))"
    and m: "set (elems s) = insert (Some e) (set (elems (queueSlice q)))"
    unfolding grownBy_def by blast
  from assms(1) have n: "0 \<le> numElements q" "numElements q \<le> int (length (elems (queueSlice q)))"
    and nn: "None \<notin> set (elems (queueSlice q))"
    by (simp_all add: wellFormed_def len_def)
  from m nn have "None \<notin> set (elems s)" by simp
  with n l show "wellFormed (q'\<lparr>numElements := numElements q + 1\<rparr>)" and "wellFormed q'"
    by (simp_all add: wellFormed_def len_def q')
  show "lock q' = lock q" and "numElements q' = numElements q"
    and "order q' = order q" and "maxnumElements q' = maxnumElements q"
    by (simp_all add: q')
qed

lemma tail_element:
  assumes "wellFormed q" and "numElements q \<noteq> 0"
  shows "\<exists>t. elemAt (queueSlice q) (numElements q - 1) = Returns (Some t)
            \<and> Some t \<in> set (elems (queueSlice q))"
proof -
  let ?es = "elems (queueSlice q)"
  from assms have n: "0 \<le> numElements q - 1" "nat (numElements q - 1) < length ?es"
    by (auto simp: wellFormed_def len_def)
  then have "?es ! nat (numElements q - 1) \<in> set ?es" by simp
  moreover have "None \<notin> set ?es" using assms(1) by (simp add: wellFormed_def)
  ultimately obtain t where "?es ! nat (numElements q - 1) = Some t" "Some t \<in> set ?es"
    by (metis not_Some_eq)
  with n show ?thesis by (auto simp: elemAt_def len_def)
qed

lemma Priority_Some: "\<exists>p. Priority (Some e) = Returns p"
  by (cases e) simp_all

lemma append_grows:
  "grownBy q elem (q\<lparr>queueSlice := appendSlice g (queueSlice q) [elem]\<rparr>)"
  unfolding grownBy_def
  by (intro exI [of _ "appendSlice g (queueSlice q) [elem]"]) simp

lemma prepend_grows:
  "grownBy q elem (q\<lparr>queueSlice := appendSlice g (Slice [] [elem] []) (elems (queueSlice q))\<rparr>)"
  unfolding grownBy_def
  by (intro exI [of _ "appendSlice g (Slice [] [elem] []) (elems (queueSlice q))"]) simp

lemma insertPriorityHigh_wellFormed:
  assumes wf: "wellFormed q" and ins: "insertPriorityHigh g q (Some e) = Returns q'"
  shows "wellFormed (q'\<lparr>numElements := numElements q' + 1\<rparr>) \<and> lock q' = lock q
       \<and> order q' = order q \<and> maxnumElements q' = maxnumElements q"
proof -
  have "grownBy q (Some e) q' \<or> (\<exists>q1. grownBy q (Some e) q1 \<and> grownBy q1 (Some e) q')"
  proof (cases "numElements q = 0")
    case True
    with ins have "q' = q\<lparr>queueSlice := appendSlice g (queueSlice q) [Some e]\<rparr>"
      by (simp add: insertPriorityHigh_def)
    then show ?thesis by (simp add: append_grows)
  next
    case False
    from tail_element [OF wf False] obtain t where
      t: "elemAt (queueSlice q) (numElements q - 1) = Returns (Some t)"
      and tin: "Some t \<in> set (elems (queueSlice q))" by blast
    obtain pt where pt: "Priority (Some t) = Returns pt" using Priority_Some by blast
    obtain pe where pe: "Priority (Some e) = Returns pe" using Priority_Some by blast
    consider (less) "pt < pe" | (tie) "pt = pe" | (more) "pe < pt" by linarith
    then show ?thesis
    proof cases
      case less
      with ins False t pt pe have "q' = q\<lparr>queueSlice := appendSlice g (queueSlice q) [Some e]\<rparr>"
        by (simp add: insertPriorityHigh_def)
      then show ?thesis by (simp add: append_grows)
    next
      case tie
      with ins False t pt pe have
        "andThen (backtrackLoop g q (Some e) (nat (numElements q)))
           (\<lambda>q. rangeHigh g q (Some e) 0 (elems (queueSlice q))) = Returns q'"
        by (simp add: insertPriorityHigh_def backtrackInsertionPoint_def)
      then obtain q1 where
        b: "backtrackLoop g q (Some e) (nat (numElements q)) = Returns q1"
        and r: "rangeHigh g q1 (Some e) 0 (elems (queueSlice q1)) = Returns q'"
        by (auto simp: andThen_Returns)
      from backtrackLoop_grows [OF b] have g1: "grownBy q (Some e) q1" .
      from rangeHigh_cases [OF r] have "grownBy q1 (Some e) q' \<or> q' = q1" by blast
      with g1 show ?thesis by blast
    next
      case more
      with ins False t pt pe have
        r: "rangeHigh g q (Some e) 0 (elems (queueSlice q)) = Returns q'"
        by (simp add: insertPriorityHigh_def)
      have "\<not> (\<forall>x\<in>set (elems (queueSlice q)). \<exists>p pe'. Priority x = Returns p
         \<and> Priority (Some e) = Returns pe' \<and> p < pe')"
      proof
        assume "\<forall>x\<in>set (elems (queueSlice q)). \<exists>p pe'. Priority x = Returns p
         \<and> Priority (Some e) = Returns pe' \<and> p < pe'"
        with tin obtain p pe' where "Priority (Some t) = Returns p"
          "Priority (Some e) = Returns pe'" "p < pe'" by blast
        with pt pe more show False by simp
      qed
      with rangeHigh_cases [OF r] show ?thesis by blast
    qed
  qed
  then show ?thesis
  proof
    assume g: "grownBy q (Some e) q'"
    from grownBy_wellFormed [OF wf g] show ?thesis by simp
  next
    assume "\<exists>q1. grownBy q (Some e) q1 \<and> grownBy q1 (Some e) q'"
    then obtain q1 where g1: "grownBy q (Some e) q1" and g2: "grownBy q1 (Some e) q'" by blast
    note a = grownBy_wellFormed [OF wf g1]
    note b = grownBy_wellFormed [OF a(2) g2]
    from a b show ?thesis by simp
  qed
qed

lemma insertPriorityLow_wellFormed:
  assumes wf: "wellFormed q" and ins: "insertPriorityLow g q (Some e) = Returns q'"
  shows "wellFormed (q'\<lparr>numElements := numElements q' + 1\<rparr>) \<and> lock q' = lock q
       \<and> order q' = order q \<and> maxnumElements q' = maxnumElements q"
proof -
  have "grownBy q (Some e) q' \<or> (\<exists>q1. grownBy q (Some e) q1 \<and> grownBy q1 (Some e) q')"
  proof (cases "numElements q = 0")
    case True
    with ins have "q' = q\<lparr>queueSlice := appendSlice g (queueSlice q) [Some e]\<rparr>"
      by (simp add: insertPriorityLow_def)
    then show ?thesis by (simp add: append_grows)
  next
    case False
    from tail_element [OF wf False] obtain t where
      t: "elemAt (queueSlice q) (numElements q - 1) = Returns (Some t)"
      and tin: "Some t \<in> set (elems (queueSlice q))" by blast
    obtain pt where pt: "Priority (Some t) = Returns pt" using Priority_Some by blast
    obtain pe where pe: "Priority (Some e) = Returns pe" using Priority_Some by blast
    consider (more) "pt > pe" | (tie) "pt = pe" | (less) "pe > pt" by linarith
    then show ?thesis
    proof cases
      case more
      with ins False t pt pe have "q' = q\<lparr>queueSlice := appendSlice g (queueSlice q) [Some e]\<rparr>"
        by (simp add: insertPriorityLow_def)
      then show ?thesis by (simp add: append_grows)
    next
      case tie
      with ins False t pt pe have
        "andThen (backtrackLoop g q (Some e) (nat (numElements q)))
           (\<lambda>q. rangeLow g q (Some e) 0 (elems (queueSlice q))) = Returns q'"
        by (simp add: insertPriorityLow_def backtrackInsertionPoint_def)
      then obtain q1 where
        b: "backtrackLoop g q (Some e) (nat (numElements q)) = Returns q1"
        and r: "rangeLow g q1 (Some e) 0 (elems (queueSlice q1)) = Returns q'"
        by (auto simp: andThen_Returns)
      from backtrackLoop_grows [OF b] have g1: "grownBy q (Some e) q1" .
      from rangeLow_cases [OF r] have "grownBy q1 (Some e) q' \<or> q' = q1" by blast
      with g1 show ?thesis by blast
    next
      case less
      with ins False t pt pe have
        r: "rangeLow g q (Some e) 0 (elems (queueSlice q)) = Returns q'"
        by (simp add: insertPriorityLow_def)
      have "\<not> (\<forall>x\<in>set (elems (queueSlice q)). \<exists>p pe'. Priority x = Returns p
         \<and> Priority (Some e) = Returns pe' \<and> p > pe')"
      proof
        assume "\<forall>x\<in>set (elems (queueSlice q)). \<exists>p pe'. Priority x = Returns p
         \<and> Priority (Some e) = Returns pe' \<and> p > pe'"
        with tin obtain p pe' where "Priority (Some t) = Returns p"
          "Priority (Some e) = Returns pe'" "p > pe'" by blast
        with pt pe less show False by simp
      qed
      with rangeLow_cases [OF r] show ?thesis by blast
    qed
  qed
  then show ?thesis
  proof
    assume g: "grownBy q (Some e) q'"
    from grownBy_wellFormed [OF wf g] show ?thesis by simp
  next
    assume "\<exists>q1. grownBy q (Some e) q1 \<and> grownBy q1 (Some e) q'"
    then obtain q1 where g1: "grownBy q (Some e) q1" and g2: "grownBy q1 (Some e) q'" by blast
    note a = grownBy_wellFormed [OF wf g1]
    note b = grownBy_wellFormed [OF a(2) g2]
    from a b show ?thesis by simp
  qed
qed

lemma insertFifoLimited_wellFormed:
  assumes wf: "wellFormed q" and ins: "insertFifoLimited g q (Some e) = Returns (r, q')"
  shows "wellFormed q' \<and> lock q' = lock q \<and> order q' = order q"
proof (cases "numElements q = maxnumElements q \<and> maxnumElements q \<noteq> 0")
  case False
  with ins have "q' = insertFifo g q (Some e)"
    by (auto simp: insertFifoLimited_def)
  then have "grownBy q (Some e) q'" unfolding insertFifo_def by (simp only: prepend_grows)
  from grownBy_wellFormed [OF wf this] show ?thesis by simp
next
  case True
  with wf have "0 < numElements q" by (simp add: wellFormed_def)
  from remove_tail [OF wf this] obtain x q1 where
    r: "remove q (numElements q - 1) = Returns (Inr (Some x), q1)"
    and q1: "wellFormed q1" "lock q1 = lock q" "order q1 = order q" by blast
  from ins True r have "q' = insertFifo g q1 (Some e)"
    by (simp add: insertFifoLimited_def)
  then have "grownBy q1 (Some e) q'" unfolding insertFifo_def by (simp only: prepend_grows)
  from grownBy_wellFormed [OF q1(1) this] q1 show ?thesis by simp
qed

lemma Insert_wellFormed:
  assumes wf: "wellFormed q" and nl: "\<not> lock q" and ins: "Insert g q (Some e) = Returns (r, q')"
  shows "wellFormed q' \<and> \<not> lock q' \<and> order q' = order q"
proof -
  let ?q = "q\<lparr>lock := True\<rparr>"
  have wfq: "wellFormed ?q" using wf by (simp add: wellFormed_def)
  consider (limited) "order q = FifoLimited"
    | (fifo) "order q = Fifo"
    | (lifo) "order q = Lifo"
    | (high) "order q = PriorityHigh"
    | (low) "order q = PriorityLow"
    | (other) "order q \<noteq> FifoLimited" "order q \<noteq> Fifo" "order q \<noteq> Lifo"
        "order q \<noteq> PriorityHigh" "order q \<noteq> PriorityLow"
    by blast
  then show ?thesis
  proof cases
    case limited
    with ins nl obtain q0 where i: "insertFifoLimited g ?q (Some e) = Returns (r, q0)"
      and q': "q' = Unlock q0"
      by (auto simp: Insert_def Lock_def andThen_Returns)
    from insertFifoLimited_wellFormed [OF wfq i] q' show ?thesis
      by (simp add: Unlock_def wellFormed_def)
  next
    case fifo
    with ins nl have q': "q' = Unlock ((insertFifo g ?q (Some e))\<lparr>numElements := numElements q + 1\<rparr>)"
      by (simp add: Insert_def Lock_def insertFifo_def Fifo_def FifoLimited_def)
    have "grownBy ?q (Some e) (insertFifo g ?q (Some e))"
      unfolding insertFifo_def by (rule prepend_grows)
    from grownBy_wellFormed [OF wfq this] q' show ?thesis
      by (simp add: Unlock_def wellFormed_def)
  next
    case lifo
    with ins nl have q': "q' = Unlock ((insertLifo g ?q (Some e))\<lparr>numElements := numElements q + 1\<rparr>)"
      by (simp add: Insert_def Lock_def insertLifo_def Fifo_def Lifo_def FifoLimited_def)
    have "grownBy ?q (Some e) (insertLifo g ?q (Some e))"
      unfolding insertLifo_def by (rule append_grows)
    from grownBy_wellFormed [OF wfq this] q' show ?thesis
      by (simp add: Unlock_def wellFormed_def)
  next
    case high
    with ins nl obtain q0 where i: "insertPriorityHigh g ?q (Some e) = Returns q0"
      and q': "q' = Unlock (q0\<lparr>numElements := numElements q0 + 1\<rparr>)"
      by (auto simp: Insert_def Lock_def andThen_Returns Fifo_def Lifo_def PriorityHigh_def
          FifoLimited_def)
    from insertPriorityHigh_wellFormed [OF wfq i] q' show ?thesis
      by (simp add: Unlock_def wellFormed_def)
  next
    case low
    with ins nl obtain q0 where i: "insertPriorityLow g ?q (Some e) = Returns q0"
      and q': "q' = Unlock (q0\<lparr>numElements := numElements q0 + 1\<rparr>)"
      by (auto simp: Insert_def Lock_def andThen_Returns Fifo_def Lifo_def PriorityHigh_def
          PriorityLow_def FifoLimited_def)
    from insertPriorityLow_wellFormed [OF wfq i] q' show ?thesis
      by (simp add: Unlock_def wellFormed_def)
  next
    case other
    with ins nl have "q' = Unlock ?q"
      by (simp add: Insert_def Lock_def)
    with wf show ?thesis by (simp add: Unlock_def wellFormed_def)
  qed
qed

lemma step_wellFormed:
  assumes "wellFormed q" and "\<not> lock q" and "step g q x = Returns q'"
  shows "wellFormed q' \<and> \<not> lock q'"
proof (cases x)
  case (OpInsert e)
  with assms(3) obtain r where "Insert g q (Some e) = Returns (r, q')"
    by (auto simp: andThen_Returns)
  from Insert_wellFormed [OF assms(1,2) this] show ?thesis by simp
next
  case OpRemove
  with assms(3) obtain r where r: "Remove q = Returns (r, q')"
    by (auto simp: andThen_Returns)
  show ?thesis
  proof (cases "numElements q = 0")
    case True
    from Remove_empty [OF assms(1,2) True] r show ?thesis by auto
  next
    case False
    with assms(1) have "0 < numElements q" by (simp add: wellFormed_def)
    from Remove_nonempty [OF assms(1,2) this] r show ?thesis by auto
  qed
next
  case (OpSetLimit l)
  with assms show ?thesis by (auto simp: SetLimit_def wellFormed_def split: if_splits)
qed

lemma run_wellFormed:
  "wellFormed q \<Longrightarrow> \<not> lock q \<Longrightarrow> run g q xs = Returns q' \<Longrightarrow> wellFormed q' \<and> \<not> lock q'"
proof (induction xs arbitrary: q)
  case Nil
  then show ?case by simp
next
  case (Cons x xs)
  from Cons.prems(3) obtain q1 where s: "step g q x = Returns q1" and r: "run g q1 xs = Returns q'"
    by (auto simp: andThen_Returns)
  from step_wellFormed [OF Cons.prems(1,2) s] have "wellFormed q1" "\<not> lock q1" by simp_all
  from Cons.IH [OF this r] show ?case .
qed

lemma drain_wellFormed:
  "wellFormed q \<Longrightarrow> \<not> lock q \<Longrightarrow>
   \<exists>vs. drain q = Returns (vs, Wrap ErrEmptyQueue ''removing element'')
        \<and> int (length vs) = numElements q"
proof (induction "nat (numElements q)" arbitrary: q)
  case 0
  then have z: "numElements q = 0" by (simp add: wellFormed_def)
  from Remove_empty [OF "0.prems" z] obtain q' where
    "Remove q = Returns (Inl (Wrap ErrEmptyQueue ''removing element''), q')" by blast
  then have "drain q = Returns ([], Wrap ErrEmptyQueue ''removing element'')"
    by (subst drain.simps) simp
  with z show ?case by simp
next
  case (Suc k)
  then have p: "0 < numElements q" by linarith
  from Remove_nonempty [OF Suc.prems p] obtain v q' where
    r: "Remove q = Returns (Inr v, q')" and q': "wellFormed q'" "\<not> lock q'"
    "numElements q' = numElements q - 1" by blast
  from Suc.hyps(2) q'(3) have "k = nat (numElements q')" by linarith
  from Suc.hyps(1) [OF this q'(1,2)] obtain vs where
    d: "drain q' = Returns (vs, Wrap ErrEmptyQueue ''removing element'')"
    and l: "int (length vs) = numElements q'" by blast
  from r d have "drain q = Returns (v # vs, Wrap ErrEmptyQueue ''removing element'')"
    by (subst drain.simps) simp
  with l q'(3) show ?case by simp
qed

text \<open>
  C6. Take a queue made by \<open>NewQueue\<close> and any sequence of \<open>Insert\<close>, \<open>Remove\<close> (and
  \<open>SetLimit\<close>) calls that runs to its end, whatever the capacities the appends choose and
  however many shrinks happen. Then removing until \<open>Remove\<close> fails returns exactly
  \<open>numElements\<close> elements and ends with the (wrapped) \<open>ErrEmptyQueue\<close>. A shrink of the
  reached queue returns, replaces only the slice and keeps all its cells; and it leaves the
  queue as it is unless the length is below \<open>shrinkFactor\<close> times the capacity.
\<close>

theorem liveCount_is_retrievable:
  assumes "NewQueue tp = Inr q0" and "run g q0 ops = Returns q"
  shows "(\<exists>vs. drain q = Returns (vs, Wrap ErrEmptyQueue ''removing element'')
           \<and> int (length vs) = numElements q)
       \<and> (\<exists>s. handleShrink q = Returns (q\<lparr>queueSlice := s\<rparr>)
               \<and> elems s = elems (queueSlice q))
       \<and> (\<not> real_of_int (len (queueSlice q))
               < shrinkFactor q * real_of_int (cap (queueSlice q))
            \<longrightarrow> handleShrink q = Returns q)"
proof -
  from assms(1) have "wellFormed q0" "\<not> lock q0"
    by (auto simp: NewQueue_def wellFormed_def len_def split: if_splits)
  from run_wellFormed [OF this assms(2)] have "wellFormed q" "\<not> lock q" by simp_all
  from drain_wellFormed [OF this] have
    "\<exists>vs. drain q = Returns (vs, Wrap ErrEmptyQueue ''removing element'')
        \<and> int (length vs) = numElements q" .
  moreover from handleShrink_returns [of q] have
    "\<exists>s. handleShrink q = Returns (q\<lparr>queueSlice := s\<rparr>) \<and> elems s = elems (queueSlice q)"
    by (metis slice.sel(2))
  moreover have "\<not> real_of_int (len (queueSlice q))
               < shrinkFactor q * real_of_int (cap (queueSlice q))
            \<longrightarrow> handleShrink q = Returns q"
    by (simp add: handleShrink_def Let_def)
  ultimately show ?thesis by blast
qed

theorem liveCount_is_retrievable_witness:
  "NewQueue PriorityHigh = Inr (projr (NewQueue PriorityHigh) :: string Queue)
   \<and> run growDouble (projr (NewQueue PriorityHigh))
        [OpInsert (PriorityElement 1 ''a''), OpInsert (PriorityElement 3 ''b''), OpRemove,
         OpInsert (PriorityElement 2 ''c'')]
      = Returns \<lparr>order = 2, lock = False,
          queueSlice = Slice [] [Some (PriorityElement 1 ''a''), Some (PriorityElement 2 ''c'')] [],
          numElements = 2, maxnumElements = 0\<rparr>
   \<and> (\<exists>vs. drain \<lparr>order = 2, lock = False,
          queueSlice = Slice [] [Some (PriorityElement 1 ''a''), Some (PriorityElement 2 ''c'')] [],
          numElements = 2, maxnumElements = 0\<rparr>
        = Returns (vs, Wrap ErrEmptyQueue ''removing element'') \<and> int (length vs) = 2)
   \<and> \<not> real_of_int (len (Slice [] [Some (PriorityElement 1 ''a''), Some (PriorityElement 2 ''c'')] []))
         < shrinkFactor \<lparr>order = 2, lock = False,
          queueSlice = Slice [] [Some (PriorityElement 1 ''a''), Some (PriorityElement 2 ''c'')] [],
          numElements = 2, maxnumElements = 0\<rparr>
           * real_of_int (cap (Slice [] [Some (PriorityElement 1 ''a''), Some (PriorityElement 2 ''c'')] []))
   \<and> handleShrink \<lparr>order = 2, lock = False,
          queueSlice = Slice [] [Some (PriorityElement 1 ''a''), Some (PriorityElement 2 ''c'')] [],
          numElements = 2, maxnumElements = 0\<rparr>
        = Returns \<lparr>order = 2, lock = False,
          queueSlice = Slice [] [Some (PriorityElement 1 ''a''), Some (PriorityElement 2 ''c'')] [],
          numElements = 2, maxnumElements = 0\<rparr>"
proof -
  have a: "NewQueue PriorityHigh = Inr (projr (NewQueue PriorityHigh) :: string Queue)"
    by code_simp
  have b: "run growDouble (projr (NewQueue PriorityHigh))
        [OpInsert (PriorityElement 1 ''a''), OpInsert (PriorityElement 3 ''b''), OpRemove,
         OpInsert (PriorityElement 2 ''c'')]
      = Returns \<lparr>order = 2, lock = False,
          queueSlice = Slice [] [Some (PriorityElement 1 ''a''), Some (PriorityElement 2 ''c'')] [],
          numElements = 2, maxnumElements = 0\<rparr>"
    by code_simp
  have c: "\<not> real_of_int (len (Slice [] [Some (PriorityElement 1 ''a''), Some (PriorityElement 2 ''c'')] []))
         < shrinkFactor \<lparr>order = 2, lock = False,
          queueSlice = Slice [] [Some (PriorityElement 1 ''a''), Some (PriorityElement 2 ''c'')] [],
          numElements = 2, maxnumElements = 0\<rparr>
           * real_of_int (cap (Slice [] [Some (PriorityElement 1 ''a''), Some (PriorityElement 2 ''c'')] []))"
    by (simp add: len_def cap_def shrinkFactor_def)
  from liveCount_is_retrievable [OF a b] a b c show ?thesis by simp
qed

end
